theory Spec2Isabelle
  imports Complex_Main "HOL-Library.Stream" "HOL-Library.Sublist"
begin

section \<open>Data model\<close>

text \<open>
  The structs of the program. Go's \<open>int\<close> is a 64-bit machine integer; it is modelled by
  \<open>int\<close>, because the program only compares these values, apart from \<open>i++\<close> below
  \<open>seqSize\<close> and \<open>seqSize - 1\<close> evaluated behind \<open>seqSize >= 4\<close>, neither of which can
  overflow (where an addition can, in the earlier program, the wrap-around is written out).
  The skip probability is a \<open>float64\<close> that is only ever compared, in \<open>m.prob <= p\<close>; it
  is modelled by a real number. The field \<open>back\<close> and the variable \<open>o\<close> are written
  \<open>back'\<close> and \<open>o'\<close>: the plain names are taken by Isabelle.
\<close>

record move =
  name :: string
  front :: bool
  back' :: bool
  leg :: bool
  prob :: real

record globalOptions =
  maxDistinct :: int
  seqSize :: int
  onlyArm :: bool
  onlyLeg :: bool
  interval :: int

record rulesOptions =
  isFront :: bool
  previousMoves :: "move list"
  seqSize :: int

text \<open>The run-time panics the program can raise.\<close>

datatype panic =
  SliceBoundsOutOfRange
  | IndexOutOfRange
  | IntnInvalidArgument
  | SpeakerInitError
  | PlayAudioError

section \<open>The random generator\<close>

text \<open>
  \<open>math/rand\<close> is a library outside the repository. Its generator is modelled by the
  outcomes it is going to yield: the values of the successive \<open>rand.Float64()\<close> calls and
  the raw values behind the successive \<open>rand.Intn(n)\<close> calls. As the library documents,
  \<open>Float64\<close> yields a value of the half-open interval from 0 to 1 (\<open>frac\<close> leaves such a
  value as it is, and brings any other real there), and \<open>Intn n\<close> panics when \<open>n <= 0\<close>
  and yields a value from 0 up to \<open>n - 1\<close> otherwise.
\<close>

record rng =
  floats :: "real stream"
  ints :: "nat stream"

definition Float64 :: "rng \<Rightarrow> real \<times> rng" where
  "Float64 g = (frac (shd (floats g)), g\<lparr>floats := stl (floats g)\<rparr>)"

definition Intn :: "int \<Rightarrow> rng \<Rightarrow> panic + (int \<times> rng)" where
  "Intn n g =
     (if n \<le> 0 then Inl IntnInvalidArgument
      else Inr (int (shd (ints g)) mod n, g\<lparr>ints := stl (ints g)\<rparr>))"

section \<open>The catalog filter\<close>

text \<open>
  The \<open>for _, m := range moves\<close> loop of \<open>applyGlobalOptions\<close>, with \<open>result\<close> as
  the accumulator; each \<open>continue\<close> leaves \<open>result\<close> as it is.
\<close>

fun applyGlobalOptions_loop :: "move list \<Rightarrow> globalOptions \<Rightarrow> move list \<Rightarrow> move list" where
  "applyGlobalOptions_loop [] o' result = result"
| "applyGlobalOptions_loop (m # ms) o' result =
     (if onlyLeg o' \<and> \<not> leg m then applyGlobalOptions_loop ms o' result
      else if onlyArm o' \<and> leg m then applyGlobalOptions_loop ms o' result
      else if \<not> onlyLeg o' \<and> leg m \<and> (globalOptions.seqSize o' > 1 \<and> globalOptions.seqSize o' < 4)
        then applyGlobalOptions_loop ms o' result
      else applyGlobalOptions_loop ms o' (result @ [m]))"

text \<open>
  The slice expression \<open>xs[:n]\<close> of Go: a run-time panic unless \<open>0 <= n <= cap(xs)\<close>.
  The capacity is taken to be the length. That is what it is for the slice literal that the
  earlier program cuts; \<open>applyGlobalOptions\<close> only cuts below the length, where the
  capacity plays no part.
\<close>

definition slice_to :: "'a list \<Rightarrow> int \<Rightarrow> panic + 'a list" where
  "slice_to xs n =
     (if n < 0 \<or> int (length xs) < n then Inl SliceBoundsOutOfRange
      else Inr (take (nat n) xs))"

definition applyGlobalOptions :: "move list \<Rightarrow> globalOptions \<Rightarrow> panic + move list" where
  "applyGlobalOptions moves o' =
     (let result = applyGlobalOptions_loop moves o' []
      in if maxDistinct o' \<noteq> 0 \<and> int (length result) > maxDistinct o'
         then slice_to result (maxDistinct o')
         else Inr result)"

text \<open>What one iteration of the loop keeps, as a predicate on the move.\<close>

definition kept :: "globalOptions \<Rightarrow> move \<Rightarrow> bool" where
  "kept o' m \<longleftrightarrow>
     \<not> (onlyLeg o' \<and> \<not> leg m) \<and> \<not> (onlyArm o' \<and> leg m) \<and>
     \<not> (\<not> onlyLeg o' \<and> leg m \<and> globalOptions.seqSize o' > 1 \<and> globalOptions.seqSize o' < 4)"

section \<open>The rule engine\<close>

text \<open>
  \<open>type rule func(move) bool\<close>. \<open>probabilityRule\<close> draws from the generator, so a
  rule takes the generator and returns it.
\<close>

type_synonym rule = "move \<Rightarrow> rng \<Rightarrow> bool \<times> rng"

definition probabilityRule :: rule where
  "probabilityRule m g = (let (p, g') = Float64 g in (prob m \<le> p, g'))"

definition frontRule :: rule where
  "frontRule m g = (front m, g)"

definition backRule :: rule where
  "backRule m g = (back' m, g)"

definition mustBeLegRule :: rule where
  "mustBeLegRule m g = (leg m, g)"

definition mustNotBeLegRule :: rule where
  "mustNotBeLegRule m g = (\<not> leg m, g)"

text \<open>
  The inner loop of \<open>applyRules\<close>: \<open>pass\<close> starts true, and the first rule that fails
  sets it to false and breaks, so that the rules after it are not called.
\<close>

fun applyRules_pass :: "rule list \<Rightarrow> move \<Rightarrow> rng \<Rightarrow> bool \<times> rng" where
  "applyRules_pass [] m g = (True, g)"
| "applyRules_pass (r # rs) m g =
     (let (ok, g') = r m g
      in if \<not> ok then (False, g') else applyRules_pass rs m g')"

text \<open>The outer loop of \<open>applyRules\<close>, with \<open>allowedMoves\<close> as the accumulator.\<close>

fun applyRules_loop :: "move list \<Rightarrow> rule list \<Rightarrow> move list \<Rightarrow> rng \<Rightarrow> move list \<times> rng" where
  "applyRules_loop [] rules allowedMoves g = (allowedMoves, g)"
| "applyRules_loop (m # ms) rules allowedMoves g =
     (let (pass, g') = applyRules_pass rules m g
      in if pass then applyRules_loop ms rules (allowedMoves @ [m]) g'
         else applyRules_loop ms rules allowedMoves g')"

definition applyRules :: "move list \<Rightarrow> rule list \<Rightarrow> rng \<Rightarrow> move list \<times> rng" where
  "applyRules possibleMoves rules g = applyRules_loop possibleMoves rules [] g"

text \<open>The loop of \<open>nextMove\<close> that sets \<open>hasLeg\<close> and \<open>hasArm\<close>.\<close>

fun nextMove_limbs :: "move list \<Rightarrow> bool \<Rightarrow> bool \<Rightarrow> bool \<times> bool" where
  "nextMove_limbs [] hasLeg hasArm = (hasLeg, hasArm)"
| "nextMove_limbs (m # ms) hasLeg hasArm =
     (if leg m then nextMove_limbs ms True hasArm else nextMove_limbs ms hasLeg True)"

text \<open>The rule list that \<open>nextMove\<close> builds before it calls \<open>applyRules\<close>.\<close>

definition nextMove_rules :: "move list \<Rightarrow> rulesOptions \<Rightarrow> rule list" where
  "nextMove_rules possibleMoves o' =
     (let rules = [] @ [probabilityRule];
          rules = (if isFront o' then rules @ [frontRule] else rules @ [backRule]);
          (hasLeg, hasArm) = nextMove_limbs possibleMoves False False
      in if hasLeg \<and> hasArm then
           (if rulesOptions.seqSize o' \<ge> 4
               \<and> int (length (previousMoves o')) = rulesOptions.seqSize o' - 1
            then rules @ [mustBeLegRule]
            else if rulesOptions.seqSize o' \<noteq> 1 then rules @ [mustNotBeLegRule]
            else rules)
         else rules)"

text \<open>
  \<open>nextMove\<close>: \<open>rand.Intn\<close> panics on an empty \<open>allowedMoves\<close>; the index expression
  \<open>allowedMoves[i]\<close> carries Go's bounds check.
\<close>

definition nextMove :: "move list \<Rightarrow> rulesOptions \<Rightarrow> rng \<Rightarrow> panic + (move \<times> rng)" where
  "nextMove possibleMoves o' g =
     (let (allowedMoves, g1) = applyRules possibleMoves (nextMove_rules possibleMoves o') g
      in case Intn (int (length allowedMoves)) g1 of
           Inl e \<Rightarrow> Inl e
         | Inr (i, g2) \<Rightarrow>
             if 0 \<le> i \<and> i < int (length allowedMoves) then Inr (allowedMoves ! nat i, g2)
             else Inl IndexOutOfRange)"

section \<open>The sequence generator\<close>

text \<open>The catalog declared in \<open>main\<close>; an omitted field of a Go literal is its zero value.\<close>

definition possibleMoves :: "move list" where
  "possibleMoves =
     [\<lparr>name = ''jab'', front = True, back' = False, leg = False, prob = 0\<rparr>,
      \<lparr>name = ''direto'', front = False, back' = True, leg = False, prob = 0\<rparr>,
      \<lparr>name = ''cruza'', front = True, back' = True, leg = False, prob = 3 / 10\<rparr>,
      \<lparr>name = ''chuta'', front = True, back' = True, leg = True, prob = 0\<rparr>,
      \<lparr>name = ''tip'', front = True, back' = True, leg = True, prob = 1 / 2\<rparr>,
      \<lparr>name = ''upper'', front = True, back' = True, leg = False, prob = 3 / 10\<rparr>,
      \<lparr>name = ''cotovelo'', front = True, back' = True, leg = False, prob = 1 / 2\<rparr>,
      \<lparr>name = ''joelho'', front = True, back' = True, leg = True, prob = 1 / 2\<rparr>]"







section \<open>The earlier program\<close>

text \<open>
  \<open>manopla.go\<close> is an earlier version of the same program, with a difficulty level in
  place of the options. Its catalog, a package-level variable:
\<close>

definition manopla_possibleMoves :: "move list" where
  "manopla_possibleMoves =
     [\<lparr>name = ''jab'', front = True, back' = False, leg = False, prob = 0\<rparr>,
      \<lparr>name = ''direto'', front = False, back' = True, leg = False, prob = 0\<rparr>,
      \<lparr>name = ''cruza'', front = True, back' = True, leg = False, prob = 1 / 2\<rparr>,
      \<lparr>name = ''chuta'', front = True, back' = True, leg = True, prob = 0\<rparr>,
      \<lparr>name = ''tip'', front = True, back' = True, leg = True, prob = 1 / 2\<rparr>,
      \<lparr>name = ''upper'', front = True, back' = True, leg = False, prob = 1 / 2\<rparr>,
      \<lparr>name = ''cotovelo'', front = True, back' = True, leg = False, prob = 1 / 2\<rparr>,
      \<lparr>name = ''joelho'', front = True, back' = True, leg = True, prob = 0\<rparr>]"

text \<open>
  Its \<open>main\<close> cuts the catalog to the level. Here \<open>level+1\<close> is computed on any value
  the flag can hold, so the 64-bit wrap-around of Go's \<open>int\<close> is written out.
\<close>

definition wrap64 :: "int \<Rightarrow> int" where
  "wrap64 x = (x + 2 ^ 63) mod 2 ^ 64 - 2 ^ 63"

definition manopla_level :: "int \<Rightarrow> panic + move list" where
  "manopla_level level =
     (if level \<noteq> 0 then
        (let level = (if wrap64 (level + 1) \<ge> int (length manopla_possibleMoves)
                      then int (length manopla_possibleMoves) - 2 else level)
         in slice_to manopla_possibleMoves (wrap64 (level + 1)))
      else Inr manopla_possibleMoves)"

text \<open>
  Its \<open>nextMove\<close> reads the catalog from the package-level variable and looks for a leg
  move only (the loop breaks at the first one); the rule list it builds, with the closures of
  the source written as the rules they compute:
\<close>

fun manopla_hasLeg :: "move list \<Rightarrow> bool" where
  "manopla_hasLeg [] = False"
| "manopla_hasLeg (m # ms) = (if leg m then True else manopla_hasLeg ms)"

definition manopla_nextMove_rules :: "move list \<Rightarrow> move list \<Rightarrow> int \<Rightarrow> bool \<Rightarrow> rule list" where
  "manopla_nextMove_rules pm moves count isFront' =
     (let rules = [] @ [probabilityRule];
          rules = (if isFront' then rules @ [frontRule] else rules @ [backRule]);
          hasLeg = manopla_hasLeg pm
      in if hasLeg then
           (if count \<ge> 4 \<and> int (length moves) = count - 1 then rules @ [mustBeLegRule]
            else if count \<noteq> 1 then rules @ [mustNotBeLegRule]
            else rules)
         else rules)"



section \<open>Properties of the catalog filter\<close>

lemma applyGlobalOptions_loop_filter:
  "applyGlobalOptions_loop moves o' result = result @ filter (kept o') moves"
  by (induction moves arbitrary: result) (auto simp: kept_def)

text \<open>
  C1. For every catalog and every configuration with leg-only false and a sequence length
  strictly between 1 and 4, the working set that \<open>applyGlobalOptions\<close> produces contains no
  leg move.
\<close>

theorem applyGlobalOptions_short_seq_no_leg:
  assumes "\<not> onlyLeg o'"
    and "1 < globalOptions.seqSize o'" and "globalOptions.seqSize o' < 4"
    and "applyGlobalOptions moves o' = Inr ws"
  shows "\<forall>m \<in> set ws. \<not> leg m"
proof -
  have a: "\<forall>m \<in> set (applyGlobalOptions_loop moves o' []). \<not> leg m"
    using assms(1-3) by (auto simp: applyGlobalOptions_loop_filter kept_def)
  from assms(4) have "set ws \<subseteq> set (applyGlobalOptions_loop moves o' [])"
    by (auto simp: applyGlobalOptions_def slice_to_def Let_def split: if_splits dest: in_set_takeD)
  with a show ?thesis by blast
qed

theorem applyGlobalOptions_short_seq_no_leg_witness:
  "applyGlobalOptions
     [\<lparr>name = ''jab'', front = True, back' = False, leg = False, prob = 0\<rparr>,
      \<lparr>name = ''chuta'', front = True, back' = True, leg = True, prob = 0\<rparr>]
     \<lparr>maxDistinct = 0, seqSize = 2, onlyArm = False, onlyLeg = False, interval = 1000000000\<rparr>
   = Inr [\<lparr>name = ''jab'', front = True, back' = False, leg = False, prob = 0\<rparr>]
   \<and> \<not> leg \<lparr>name = ''jab'', front = True, back' = False, leg = False, prob = 0\<rparr>"
  using applyGlobalOptions_short_seq_no_leg
    [of "\<lparr>maxDistinct = 0, seqSize = 2, onlyArm = False, onlyLeg = False, interval = 1000000000\<rparr>"
        "[\<lparr>name = ''jab'', front = True, back' = False, leg = False, prob = 0\<rparr>,
          \<lparr>name = ''chuta'', front = True, back' = True, leg = True, prob = 0\<rparr>]"
        "[\<lparr>name = ''jab'', front = True, back' = False, leg = False, prob = 0\<rparr>]"]
  by (simp add: applyGlobalOptions_def)

text \<open>
  C5, as the code has it. The arm-only drop is a check of its own, made whether or not
  leg-only is set: when both flags are set the loop keeps no move at all, and when leg-only
  is set alone it keeps exactly the leg moves, in catalog order.
\<close>

theorem applyGlobalOptions_onlyLeg_onlyArm:
  "(onlyLeg o' \<and> onlyArm o' \<longrightarrow> applyGlobalOptions_loop moves o' [] = [])
   \<and> (onlyLeg o' \<and> \<not> onlyArm o' \<longrightarrow> applyGlobalOptions_loop moves o' [] = filter leg moves)"
proof -
  have "filter (kept o') moves = []" if "onlyLeg o'" "onlyArm o'"
    using that by (auto simp: kept_def filter_empty_conv)
  moreover have "filter (kept o') moves = filter leg moves" if "onlyLeg o'" "\<not> onlyArm o'"
    using that by (auto simp: kept_def intro: filter_cong)
  ultimately show ?thesis by (simp add: applyGlobalOptions_loop_filter)
qed

theorem applyGlobalOptions_onlyLeg_onlyArm_witness:
  "applyGlobalOptions_loop possibleMoves
     \<lparr>maxDistinct = 0, seqSize = 2, onlyArm = True, onlyLeg = True, interval = 1000000000\<rparr> [] = []
   \<and> applyGlobalOptions_loop possibleMoves
     \<lparr>maxDistinct = 0, seqSize = 2, onlyArm = False, onlyLeg = True, interval = 1000000000\<rparr> []
     = filter leg possibleMoves"
  using applyGlobalOptions_onlyLeg_onlyArm
    [of "\<lparr>maxDistinct = 0, seqSize = 2, onlyArm = True, onlyLeg = True, interval = 1000000000\<rparr>"
        possibleMoves]
    applyGlobalOptions_onlyLeg_onlyArm
    [of "\<lparr>maxDistinct = 0, seqSize = 2, onlyArm = False, onlyLeg = True, interval = 1000000000\<rparr>"
        possibleMoves]
  by simp

text \<open>
  C5 as the claim states it fails: with both flags set, the filter run on the program's catalog
  returns the empty list, while with leg-only alone it returns the three leg moves.
\<close>

theorem applyGlobalOptions_both_flags_counterexample:
  "applyGlobalOptions possibleMoves
     \<lparr>maxDistinct = 0, seqSize = 2, onlyArm = True, onlyLeg = True, interval = 1000000000\<rparr>
   = Inr []
   \<and> applyGlobalOptions possibleMoves
     \<lparr>maxDistinct = 0, seqSize = 2, onlyArm = False, onlyLeg = True, interval = 1000000000\<rparr>
   = Inr [\<lparr>name = ''chuta'', front = True, back' = True, leg = True, prob = 0\<rparr>,
          \<lparr>name = ''tip'', front = True, back' = True, leg = True, prob = 1 / 2\<rparr>,
          \<lparr>name = ''joelho'', front = True, back' = True, leg = True, prob = 1 / 2\<rparr>]"
  by (simp add: applyGlobalOptions_def possibleMoves_def)

text \<open>
  C7. The moves that survive the loop are the catalog's moves that pass the three checks,
  in catalog order. With \<open>maxDistinct = 0\<close> the filter returns all of them; with
  \<open>maxDistinct = N > 0\<close> and more than \<open>N\<close> survivors it returns exactly the first \<open>N\<close>.
\<close>

theorem applyGlobalOptions_maxDistinct:
  "applyGlobalOptions_loop moves o' [] = filter (kept o') moves
   \<and> (maxDistinct o' = 0 \<longrightarrow>
        applyGlobalOptions moves o' = Inr (applyGlobalOptions_loop moves o' []))
   \<and> (0 < maxDistinct o' \<and> maxDistinct o' < int (length (applyGlobalOptions_loop moves o' [])) \<longrightarrow>
        applyGlobalOptions moves o'
          = Inr (take (nat (maxDistinct o')) (applyGlobalOptions_loop moves o' []))
        \<and> int (length (take (nat (maxDistinct o')) (applyGlobalOptions_loop moves o' [])))
          = maxDistinct o')"
  by (auto simp: applyGlobalOptions_loop_filter applyGlobalOptions_def slice_to_def min_def)

theorem applyGlobalOptions_maxDistinct_witness:
  "applyGlobalOptions possibleMoves
     \<lparr>maxDistinct = 0, seqSize = 4, onlyArm = False, onlyLeg = False, interval = 1000000000\<rparr>
   = Inr possibleMoves
   \<and> applyGlobalOptions possibleMoves
     \<lparr>maxDistinct = 2, seqSize = 4, onlyArm = True, onlyLeg = False, interval = 1000000000\<rparr>
   = Inr [\<lparr>name = ''jab'', front = True, back' = False, leg = False, prob = 0\<rparr>,
          \<lparr>name = ''direto'', front = False, back' = True, leg = False, prob = 0\<rparr>]"
  using applyGlobalOptions_maxDistinct
    [of possibleMoves
        "\<lparr>maxDistinct = 0, seqSize = 4, onlyArm = False, onlyLeg = False, interval = 1000000000\<rparr>"]
    applyGlobalOptions_maxDistinct
    [of possibleMoves
        "\<lparr>maxDistinct = 2, seqSize = 4, onlyArm = True, onlyLeg = False, interval = 1000000000\<rparr>"]
  by (simp add: possibleMoves_def kept_def)

text \<open>
  The filter returns a list exactly when \<open>maxDistinct\<close> is not negative: a negative
  \<open>maxDistinct\<close> passes both tests of the truncation and reaches the slice expression.
\<close>

lemma applyGlobalOptions_returns_iff:
  "(\<exists>ws. applyGlobalOptions moves o' = Inr ws) \<longleftrightarrow> 0 \<le> maxDistinct o'"
  by (auto simp: applyGlobalOptions_def slice_to_def Let_def)

text \<open>
  C8. The claim is that the filter returns a list for every configuration. Run with the flag
  \<open>-d -1\<close> and the other flags at their defaults, the filter panics on the slice expression
  \<open>result[:o.maxDistinct]\<close>.
\<close>

theorem applyGlobalOptions_negative_maxDistinct_panics:
  "applyGlobalOptions possibleMoves
     \<lparr>maxDistinct = - 1, seqSize = 2, onlyArm = False, onlyLeg = False, interval = 1000000000\<rparr>
   = Inl SliceBoundsOutOfRange"
  by (simp add: applyGlobalOptions_def slice_to_def)

section \<open>Properties of the rule engine\<close>

lemma nextMove_limbs_eq:
  "nextMove_limbs pm hasLeg hasArm =
     (hasLeg \<or> (\<exists>m \<in> set pm. leg m), hasArm \<or> (\<exists>m \<in> set pm. \<not> leg m))"
  by (induction pm arbitrary: hasLeg hasArm) auto

lemma nextMove_rules_eq:
  "nextMove_rules pm o' =
     [probabilityRule, if isFront o' then frontRule else backRule] @
     (if (\<exists>m \<in> set pm. leg m) \<and> (\<exists>m \<in> set pm. \<not> leg m) then
        (if rulesOptions.seqSize o' \<ge> 4
            \<and> int (length (previousMoves o')) = rulesOptions.seqSize o' - 1
         then [mustBeLegRule]
         else if rulesOptions.seqSize o' \<noteq> 1 then [mustNotBeLegRule] else [])
      else [])"
  by (simp add: nextMove_rules_def nextMove_limbs_eq Let_def)

lemma applyRules_pass_pure:
  assumes "r \<in> set rules" and "\<And>m g. r m g = (P m, g)"
    and "fst (applyRules_pass rules m g)"
  shows "P m"
  using assms(1,3)
proof (induction rules arbitrary: g)
  case Nil
  then show ?case by simp
next
  case (Cons r' rs)
  obtain ok g' where r': "r' m g = (ok, g')" by (cases "r' m g")
  show ?case
  proof (cases "r = r'")
    case True
    with Cons.prems(2) r' assms(2) show ?thesis by (auto split: if_splits)
  next
    case False
    with Cons.prems r' have "r \<in> set rs" "fst (applyRules_pass rs m g')"
      by (auto split: if_splits)
    then show ?thesis by (rule Cons.IH)
  qed
qed

lemma applyRules_loop_mem:
  assumes "m \<in> set (fst (applyRules_loop ms rules allowedMoves g))"
  shows "m \<in> set allowedMoves \<or> (m \<in> set ms \<and> (\<exists>g'. fst (applyRules_pass rules m g')))"
  using assms
proof (induction ms arbitrary: allowedMoves g)
  case Nil
  then show ?case by simp
next
  case (Cons x xs)
  obtain pass g' where p: "applyRules_pass rules x g = (pass, g')"
    by (cases "applyRules_pass rules x g")
  show ?case
  proof (cases pass)
    case True
    with Cons.prems p have "m \<in> set (fst (applyRules_loop xs rules (allowedMoves @ [x]) g'))"
      by simp
    from Cons.IH [OF this] True p show ?thesis by (auto intro: exI [of _ g])
  next
    case False
    with Cons.prems p have "m \<in> set (fst (applyRules_loop xs rules allowedMoves g'))"
      by simp
    from Cons.IH [OF this] show ?thesis by auto
  qed
qed

lemma applyRules_mem:
  assumes "m \<in> set (fst (applyRules pm rules g))"
  shows "m \<in> set pm"
  using applyRules_loop_mem [of m pm rules "[]" g] assms by (simp add: applyRules_def)

lemma applyRules_pure:
  assumes "m \<in> set (fst (applyRules pm rules g))"
    and "r \<in> set rules" and "\<And>m g. r m g = (P m, g)"
  shows "P m"
proof -
  from applyRules_loop_mem [of m pm rules "[]" g] assms(1)
  obtain g' where "fst (applyRules_pass rules m g')" by (auto simp: applyRules_def)
  with assms(2,3) show ?thesis by (rule applyRules_pass_pure)
qed

lemma nextMove_Inr:
  assumes "nextMove pm o' g = Inr (m, g')"
  shows "m \<in> set (fst (applyRules pm (nextMove_rules pm o') g))"
  using assms
  by (auto simp: nextMove_def Let_def split: prod.splits sum.splits if_splits)

text \<open>
  C2. On a working set with both an arm move and a leg move, a call of \<open>nextMove\<close> at the
  last position of a sequence of length at least 4 that returns, returns a leg move.
\<close>

theorem nextMove_last_is_leg:
  assumes "\<exists>m \<in> set pm. leg m" and "\<exists>m \<in> set pm. \<not> leg m"
    and "rulesOptions.seqSize o' \<ge> 4"
    and "int (length (previousMoves o')) = rulesOptions.seqSize o' - 1"
    and "nextMove pm o' g = Inr (m, g')"
  shows "leg m"
proof -
  from assms(1-4) have "mustBeLegRule \<in> set (nextMove_rules pm o')"
    by (simp add: nextMove_rules_eq)
  with nextMove_Inr [OF assms(5)] show ?thesis
    by (rule applyRules_pure) (simp add: mustBeLegRule_def)
qed

theorem nextMove_last_is_leg_witness:
  "nextMove [\<lparr>name = ''jab'', front = True, back' = False, leg = False, prob = 0\<rparr>,
             \<lparr>name = ''chuta'', front = True, back' = True, leg = True, prob = 0\<rparr>]
     \<lparr>isFront = False,
      previousMoves =
        replicate 3 \<lparr>name = ''jab'', front = True, back' = False, leg = False, prob = 0\<rparr>,
      seqSize = 4\<rparr>
     \<lparr>floats = sconst 0, ints = sconst 0\<rparr>
   = Inr (\<lparr>name = ''chuta'', front = True, back' = True, leg = True, prob = 0\<rparr>,
          \<lparr>floats = sconst 0, ints = sconst 0\<rparr>)
   \<and> leg \<lparr>name = ''chuta'', front = True, back' = True, leg = True, prob = 0\<rparr>"
  using nextMove_last_is_leg
    [of "[\<lparr>name = ''jab'', front = True, back' = False, leg = False, prob = 0\<rparr>,
          \<lparr>name = ''chuta'', front = True, back' = True, leg = True, prob = 0\<rparr>]"
        "\<lparr>isFront = False,
          previousMoves =
            replicate 3 \<lparr>name = ''jab'', front = True, back' = False, leg = False, prob = 0\<rparr>,
          seqSize = 4\<rparr>"
        "\<lparr>floats = sconst 0, ints = sconst 0\<rparr>"
        "\<lparr>name = ''chuta'', front = True, back' = True, leg = True, prob = 0\<rparr>"
        "\<lparr>floats = sconst 0, ints = sconst 0\<rparr>"]
  by (simp add: nextMove_def nextMove_rules_def applyRules_def probabilityRule_def frontRule_def
      backRule_def mustBeLegRule_def mustNotBeLegRule_def Float64_def Intn_def)

text \<open>
  C3. A move that \<open>nextMove\<close> returns is an element of the working set it was given; its
  \<open>front\<close> flag is set when the call has \<open>isFront\<close> true, its \<open>back\<close> flag when it has
  \<open>isFront\<close> false.
\<close>

theorem nextMove_member_side:
  assumes "nextMove pm o' g = Inr (m, g')"
  shows "m \<in> set pm \<and> (isFront o' \<longrightarrow> front m) \<and> (\<not> isFront o' \<longrightarrow> back' m)"
proof -
  note mem = nextMove_Inr [OF assms]
  have "m \<in> set pm" using mem by (rule applyRules_mem)
  moreover have "front m" if "isFront o'"
  proof -
    from that have "frontRule \<in> set (nextMove_rules pm o')"
      by (simp add: nextMove_rules_eq)
    with mem show ?thesis by (rule applyRules_pure) (simp add: frontRule_def)
  qed
  moreover have "back' m" if "\<not> isFront o'"
  proof -
    from that have "backRule \<in> set (nextMove_rules pm o')"
      by (simp add: nextMove_rules_eq)
    with mem show ?thesis by (rule applyRules_pure) (simp add: backRule_def)
  qed
  ultimately show ?thesis by blast
qed

theorem nextMove_member_side_witness:
  "nextMove [\<lparr>name = ''jab'', front = True, back' = False, leg = False, prob = 0\<rparr>,
             \<lparr>name = ''direto'', front = False, back' = True, leg = False, prob = 0\<rparr>]
     \<lparr>isFront = True, previousMoves = [], seqSize = 2\<rparr> \<lparr>floats = sconst 0, ints = sconst 0\<rparr>
   = Inr (\<lparr>name = ''jab'', front = True, back' = False, leg = False, prob = 0\<rparr>,
          \<lparr>floats = sconst 0, ints = sconst 0\<rparr>)
   \<and> front \<lparr>name = ''jab'', front = True, back' = False, leg = False, prob = 0\<rparr>
   \<and> nextMove [\<lparr>name = ''jab'', front = True, back' = False, leg = False, prob = 0\<rparr>,
               \<lparr>name = ''direto'', front = False, back' = True, leg = False, prob = 0\<rparr>]
       \<lparr>isFront = False, previousMoves = [], seqSize = 2\<rparr> \<lparr>floats = sconst 0, ints = sconst 0\<rparr>
     = Inr (\<lparr>name = ''direto'', front = False, back' = True, leg = False, prob = 0\<rparr>,
            \<lparr>floats = sconst 0, ints = sconst 0\<rparr>)
   \<and> back' \<lparr>name = ''direto'', front = False, back' = True, leg = False, prob = 0\<rparr>"
  using nextMove_member_side
    [of "[\<lparr>name = ''jab'', front = True, back' = False, leg = False, prob = 0\<rparr>,
          \<lparr>name = ''direto'', front = False, back' = True, leg = False, prob = 0\<rparr>]"
        "\<lparr>isFront = True, previousMoves = [], seqSize = 2\<rparr>" "\<lparr>floats = sconst 0, ints = sconst 0\<rparr>"
        "\<lparr>name = ''jab'', front = True, back' = False, leg = False, prob = 0\<rparr>"
        "\<lparr>floats = sconst 0, ints = sconst 0\<rparr>"]
    nextMove_member_side
    [of "[\<lparr>name = ''jab'', front = True, back' = False, leg = False, prob = 0\<rparr>,
          \<lparr>name = ''direto'', front = False, back' = True, leg = False, prob = 0\<rparr>]"
        "\<lparr>isFront = False, previousMoves = [], seqSize = 2\<rparr>" "\<lparr>floats = sconst 0, ints = sconst 0\<rparr>"
        "\<lparr>name = ''direto'', front = False, back' = True, leg = False, prob = 0\<rparr>"
        "\<lparr>floats = sconst 0, ints = sconst 0\<rparr>"]
  by (simp add: nextMove_def nextMove_rules_def applyRules_def probabilityRule_def frontRule_def
      backRule_def mustBeLegRule_def mustNotBeLegRule_def Float64_def Intn_def)

text \<open>
  C4. \<open>nextMove\<close> fails exactly when the subset of the working set that passes its rules is
  empty, and the failure is then the panic of the index draw \<open>rand.Intn(len(allowedMoves))\<close>;
  when the subset is not empty, \<open>nextMove\<close> returns a move.
\<close>

theorem nextMove_fails_iff_empty:
  "((\<exists>e. nextMove pm o' g = Inl e) \<longleftrightarrow> fst (applyRules pm (nextMove_rules pm o') g) = [])
   \<and> (\<forall>e. nextMove pm o' g = Inl e \<longrightarrow> e = IntnInvalidArgument)
   \<and> (fst (applyRules pm (nextMove_rules pm o') g) \<noteq> [] \<longrightarrow>
        (\<exists>m g'. nextMove pm o' g = Inr (m, g')))"
proof -
  obtain allowed g1 where a: "applyRules pm (nextMove_rules pm o') g = (allowed, g1)"
    by (cases "applyRules pm (nextMove_rules pm o') g")
  show ?thesis
  proof (cases "allowed = []")
    case True
    with a show ?thesis by (simp add: nextMove_def Intn_def)
  next
    case False
    then have "0 < int (length allowed)" by simp
    moreover have "int (shd (ints g1)) mod int (length allowed) < int (length allowed)"
      using False by simp
    ultimately show ?thesis using a False
      by (simp add: nextMove_def Intn_def)
  qed
qed

theorem nextMove_fails_iff_empty_witness:
  "fst (applyRules [\<lparr>name = ''direto'', front = False, back' = True, leg = False, prob = 0\<rparr>]
         (nextMove_rules [\<lparr>name = ''direto'', front = False, back' = True, leg = False, prob = 0\<rparr>]
            \<lparr>isFront = True, previousMoves = [], seqSize = 2\<rparr>)
         \<lparr>floats = sconst 0, ints = sconst 0\<rparr>) = []
   \<and> nextMove [\<lparr>name = ''direto'', front = False, back' = True, leg = False, prob = 0\<rparr>]
         \<lparr>isFront = True, previousMoves = [], seqSize = 2\<rparr> \<lparr>floats = sconst 0, ints = sconst 0\<rparr>
       = Inl IntnInvalidArgument
   \<and> fst (applyRules [\<lparr>name = ''jab'', front = True, back' = False, leg = False, prob = 0\<rparr>]
         (nextMove_rules [\<lparr>name = ''jab'', front = True, back' = False, leg = False, prob = 0\<rparr>]
            \<lparr>isFront = True, previousMoves = [], seqSize = 2\<rparr>)
         \<lparr>floats = sconst 0, ints = sconst 0\<rparr>) \<noteq> []
   \<and> nextMove [\<lparr>name = ''jab'', front = True, back' = False, leg = False, prob = 0\<rparr>]
         \<lparr>isFront = True, previousMoves = [], seqSize = 2\<rparr> \<lparr>floats = sconst 0, ints = sconst 0\<rparr>
       = Inr (\<lparr>name = ''jab'', front = True, back' = False, leg = False, prob = 0\<rparr>,
              \<lparr>floats = sconst 0, ints = sconst 0\<rparr>)"
  using nextMove_fails_iff_empty
    [of "[\<lparr>name = ''direto'', front = False, back' = True, leg = False, prob = 0\<rparr>]"
        "\<lparr>isFront = True, previousMoves = [], seqSize = 2\<rparr>" "\<lparr>floats = sconst 0, ints = sconst 0\<rparr>"]
    nextMove_fails_iff_empty
    [of "[\<lparr>name = ''jab'', front = True, back' = False, leg = False, prob = 0\<rparr>]"
        "\<lparr>isFront = True, previousMoves = [], seqSize = 2\<rparr>" "\<lparr>floats = sconst 0, ints = sconst 0\<rparr>"]
  by (simp add: nextMove_def nextMove_rules_def applyRules_def probabilityRule_def frontRule_def
      backRule_def mustBeLegRule_def mustNotBeLegRule_def Float64_def Intn_def)

lemma mustBeLegRule_distinct:
  "mustBeLegRule \<noteq> probabilityRule" "mustBeLegRule \<noteq> frontRule" "mustBeLegRule \<noteq> backRule"
proof -
  let ?g = "\<lparr>floats = sconst 0, ints = sconst 0\<rparr>"
  let ?l = "\<lparr>name = [], front = False, back' = False, leg = True, prob = 2\<rparr>"
  have "fst (mustBeLegRule ?l ?g) \<noteq> fst (probabilityRule ?l ?g)"
    by (simp add: mustBeLegRule_def probabilityRule_def Float64_def)
  then show "mustBeLegRule \<noteq> probabilityRule" by metis
  have "fst (mustBeLegRule ?l ?g) \<noteq> fst (frontRule ?l ?g)"
    by (simp add: mustBeLegRule_def frontRule_def)
  then show "mustBeLegRule \<noteq> frontRule" by metis
  have "fst (mustBeLegRule ?l ?g) \<noteq> fst (backRule ?l ?g)"
    by (simp add: mustBeLegRule_def backRule_def)
  then show "mustBeLegRule \<noteq> backRule" by metis
qed

lemma mustNotBeLegRule_distinct:
  "mustNotBeLegRule \<noteq> probabilityRule" "mustNotBeLegRule \<noteq> frontRule"
  "mustNotBeLegRule \<noteq> backRule"
proof -
  let ?g = "\<lparr>floats = sconst 0, ints = sconst 0\<rparr>"
  let ?a = "\<lparr>name = [], front = False, back' = False, leg = False, prob = 2\<rparr>"
  have "fst (mustNotBeLegRule ?a ?g) \<noteq> fst (probabilityRule ?a ?g)"
    by (simp add: mustNotBeLegRule_def probabilityRule_def Float64_def)
  then show "mustNotBeLegRule \<noteq> probabilityRule" by metis
  have "fst (mustNotBeLegRule ?a ?g) \<noteq> fst (frontRule ?a ?g)"
    by (simp add: mustNotBeLegRule_def frontRule_def)
  then show "mustNotBeLegRule \<noteq> frontRule" by metis
  have "fst (mustNotBeLegRule ?a ?g) \<noteq> fst (backRule ?a ?g)"
    by (simp add: mustNotBeLegRule_def backRule_def)
  then show "mustNotBeLegRule \<noteq> backRule" by metis
qed

lemma applyGlobalOptions_onlyLeg_pure:
  assumes "onlyLeg go" and "applyGlobalOptions catalog go = Inr ws"
  shows "\<forall>m \<in> set ws. leg m"
proof -
  have a: "\<forall>m \<in> set (applyGlobalOptions_loop catalog go []). leg m"
    using assms(1) by (auto simp: applyGlobalOptions_loop_filter kept_def)
  from assms(2) have "set ws \<subseteq> set (applyGlobalOptions_loop catalog go [])"
    by (auto simp: applyGlobalOptions_def slice_to_def Let_def split: if_splits dest: in_set_takeD)
  with a show ?thesis by blast
qed

text \<open>
  C6. On a working set that is pure arm or pure leg, the rule list of \<open>nextMove\<close> is the
  probability rule and the side rule and nothing else: no limb-position rule is added. So it
  is on every working set that the filter returns under leg-only, whatever the sequence length.
\<close>

theorem nextMove_pure_set_no_limb_rule:
  "((\<forall>m \<in> set pm. \<not> leg m) \<or> (\<forall>m \<in> set pm. leg m) \<longrightarrow>
      nextMove_rules pm o' = [probabilityRule, if isFront o' then frontRule else backRule]
      \<and> mustBeLegRule \<notin> set (nextMove_rules pm o')
      \<and> mustNotBeLegRule \<notin> set (nextMove_rules pm o'))
   \<and> (onlyLeg go \<and> applyGlobalOptions catalog go = Inr ws \<longrightarrow>
      nextMove_rules ws o' = [probabilityRule, if isFront o' then frontRule else backRule]
      \<and> mustBeLegRule \<notin> set (nextMove_rules ws o')
      \<and> mustNotBeLegRule \<notin> set (nextMove_rules ws o'))"
proof -
  have pure: "nextMove_rules ms o' = [probabilityRule, if isFront o' then frontRule else backRule]
      \<and> mustBeLegRule \<notin> set (nextMove_rules ms o')
      \<and> mustNotBeLegRule \<notin> set (nextMove_rules ms o')"
    if "(\<forall>m \<in> set ms. \<not> leg m) \<or> (\<forall>m \<in> set ms. leg m)" for ms
  proof -
    from that have "\<not> ((\<exists>m \<in> set ms. leg m) \<and> (\<exists>m \<in> set ms. \<not> leg m))" by blast
    then have "nextMove_rules ms o' = [probabilityRule, if isFront o' then frontRule else backRule]"
      by (subst nextMove_rules_eq) (simp only: if_False append_Nil2)
    then show ?thesis by (simp add: mustBeLegRule_distinct mustNotBeLegRule_distinct)
  qed
  show ?thesis using pure [of pm] pure [of ws] applyGlobalOptions_onlyLeg_pure [of go catalog ws]
    by blast
qed

theorem nextMove_pure_set_no_limb_rule_witness:
  "nextMove_rules [\<lparr>name = ''jab'', front = True, back' = False, leg = False, prob = 0\<rparr>,
                   \<lparr>name = ''direto'', front = False, back' = True, leg = False, prob = 0\<rparr>]
     \<lparr>isFront = True, previousMoves = [], seqSize = 3\<rparr> = [probabilityRule, frontRule]
   \<and> applyGlobalOptions possibleMoves
       \<lparr>maxDistinct = 0, seqSize = 3, onlyArm = False, onlyLeg = True, interval = 1000000000\<rparr>
     = Inr (filter leg possibleMoves)
   \<and> nextMove_rules (filter leg possibleMoves)
       \<lparr>isFront = False, previousMoves = [], seqSize = 3\<rparr> = [probabilityRule, backRule]"
  using nextMove_pure_set_no_limb_rule
    [of "[\<lparr>name = ''jab'', front = True, back' = False, leg = False, prob = 0\<rparr>,
          \<lparr>name = ''direto'', front = False, back' = True, leg = False, prob = 0\<rparr>]"
        "\<lparr>isFront = True, previousMoves = [], seqSize = 3\<rparr>"]
    nextMove_pure_set_no_limb_rule
    [of "[]" "\<lparr>isFront = False, previousMoves = [], seqSize = 3\<rparr>"
        "\<lparr>maxDistinct = 0, seqSize = 3, onlyArm = False, onlyLeg = True, interval = 1000000000\<rparr>"
        possibleMoves "filter leg possibleMoves"]
  by (simp add: applyGlobalOptions_def possibleMoves_def)

text \<open>
  The earlier \<open>nextMove\<close> adds the limb-position rule whenever the working set has a leg
  move. Its working sets are the first moves of its catalog, which begins with an arm move,
  so one that is pure arm or pure leg has no leg move, and gets no limb-position rule either.
\<close>

lemma manopla_hasLeg_eq: "manopla_hasLeg pm \<longleftrightarrow> (\<exists>m \<in> set pm. leg m)"
  by (induction pm) auto

lemma manopla_level_prefix:
  assumes "manopla_level level = Inr ws"
  shows "\<exists>n. ws = take n manopla_possibleMoves"
proof (cases "level = 0")
  case True
  with assms have "ws = take (length manopla_possibleMoves) manopla_possibleMoves"
    by (simp add: manopla_level_def)
  then show ?thesis by blast
next
  case False
  with assms show ?thesis
    by (auto simp: manopla_level_def slice_to_def Let_def split: if_splits)
qed

lemma manopla_prefix_pure:
  assumes "(\<forall>m \<in> set (take n manopla_possibleMoves). \<not> leg m)
           \<or> (\<forall>m \<in> set (take n manopla_possibleMoves). leg m)"
  shows "\<forall>m \<in> set (take n manopla_possibleMoves). \<not> leg m"
proof (cases n)
  case 0
  then show ?thesis by simp
next
  case (Suc k)
  then have "\<lparr>name = ''jab'', front = True, back' = False, leg = False, prob = 0\<rparr>
      \<in> set (take n manopla_possibleMoves)"
    by (simp add: manopla_possibleMoves_def)
  then have "\<not> (\<forall>m \<in> set (take n manopla_possibleMoves). leg m)"
    by (metis move.select_convs(4))
  with assms show ?thesis by blast
qed

lemma manopla_nextMove_rules_pure:
  assumes "manopla_level level = Inr ws"
    and "(\<forall>m \<in> set ws. \<not> leg m) \<or> (\<forall>m \<in> set ws. leg m)"
  shows "manopla_nextMove_rules ws moves count f
           = [probabilityRule, if f then frontRule else backRule]"
proof -
  from assms(1) obtain n where "ws = take n manopla_possibleMoves"
    using manopla_level_prefix by blast
  with assms(2) have "\<forall>m \<in> set ws. \<not> leg m" using manopla_prefix_pure by blast
  then have "\<not> manopla_hasLeg ws" by (simp add: manopla_hasLeg_eq)
  then show ?thesis by (simp add: manopla_nextMove_rules_def)
qed

section \<open>Properties of the sequence generator\<close>











end
